theory Spec2Isabelle
  imports Main
begin

section \<open>The \<open>pull\<close> command of the CLI (packages/cli/src/commands/pull.ts)\<close>

text \<open>
  The command resolves the link between a working directory and a remote project,
  downloads the environment variables of the project for each deployment target into
  local files, and then writes the project settings. Everything the command calls
  outside its own file (argument grammar, link lookup, interactive setup, the download
  of one environment file, the settings writer) is a collaborator: the model takes the
  collaborators as a record of functions and records every call in a trace of events,
  so that "is invoked", "is dispatched" and "is written" are statements about the trace.
  A collaborator is taken to return: apart from the argument parser, whose exception
  \<open>parseArgs\<close> catches, an exception thrown by a collaborator is not modelled.
\<close>

subsection \<open>Data\<close>

text \<open>\<open>ProjectEnvTarget\<close>: the members the command uses.\<close>

datatype ProjectEnvTarget = Development | Preview | Production

text \<open>
  \<open>Org\<close> and \<open>Project\<close>: the command reads \<open>org.type\<close> and \<open>org.id\<close> and passes the
  project on as it is.
\<close>

record Org =
  org_type :: string
  org_id :: string

record Project =
  project_id :: string

text \<open>
  What \<open>getLinkedProject\<close> and \<open>setupAndLink\<close> resolve to: an object whose \<open>status\<close> is
  \<open>'linked'\<close> (with \<open>org\<close> and \<open>project\<close>), \<open>'not_linked'\<close> or \<open>'error'\<close> (with \<open>exitCode\<close>).
\<close>

datatype ProjectLinkResult =
    Linked Org Project
  | NotLinked
  | LinkError int

text \<open>
  The parsed arguments, as far as the command reads them: \<open>argv['--help']\<close> (its
  truthiness), \<open>argv['--yes']\<close>, \<open>argv['--env']\<close> (both \<open>undefined\<close> when the flag is
  absent) and the positional arguments \<open>argv._\<close>.
\<close>

record Argv =
  arg_help :: bool
  arg_yes :: "bool option"
  arg_env :: "string option"
  arg_positional :: "string list"

text \<open>The client: its \<open>argv\<close> and \<open>config.currentTeam\<close> (\<open>undefined\<close> is \<open>None\<close>).\<close>

record Client =
  argv :: "string list"
  currentTeam :: "string option"

text \<open>One event per call of a collaborator and per assignment to the shared client.\<close>

datatype Event =
    Ev_help
  | Ev_handleError
  | Ev_getLinkedProject string
  | Ev_setupAndLink string bool
  | Ev_setCurrentTeam "string option"
  | Ev_envPull Client ProjectEnvTarget "string list"
  | Ev_writeProjectSettings string Project Org
  | Ev_print

text \<open>
  The collaborators. \<open>getArgs\<close> either throws (\<open>Inl ()\<close>) or returns the parsed
  arguments; \<open>process_cwd\<close> is the value of \<open>process.cwd()\<close>.
\<close>

record Collab =
  getArgs :: "string list \<Rightarrow> unit + Argv"
  getLinkedProject :: "Client \<Rightarrow> string \<Rightarrow> ProjectLinkResult"
  setupAndLink :: "Client \<Rightarrow> string \<Rightarrow> bool \<Rightarrow> ProjectLinkResult"
  envPull :: "Client \<Rightarrow> Project \<Rightarrow> ProjectEnvTarget \<Rightarrow> Argv \<Rightarrow> string list \<Rightarrow> int"
  process_cwd :: string

subsection \<open>\<open>join\<close> of Node's \<open>path\<close> module (POSIX)\<close>

text \<open>
  \<open>join\<close> drops its empty arguments, puts \<open>/\<close> between the others and normalises the
  result; with nothing left it is \<open>.\<close>. Normalising walks the segments between
  slashes: an empty segment and \<open>.\<close> are skipped, \<open>..\<close> removes the segment before it
  (above the start of a relative path it is kept, at the root of an absolute path it is
  dropped), any other segment is kept. A trailing slash is preserved.
\<close>

fun splitSep :: "string \<Rightarrow> string list" where
  "splitSep [] = [[]]"
| "splitSep (c # cs) =
     (if c = CHR ''/'' then [] # splitSep cs
      else (case splitSep cs of
              [] \<Rightarrow> [[c]]
            | s # ss \<Rightarrow> (c # s) # ss))"

fun joinSep :: "string list \<Rightarrow> string" where
  "joinSep [] = []"
| "joinSep [s] = s"
| "joinSep (s # t # ss) = s @ ''/'' @ joinSep (t # ss)"

text \<open>One segment; the segments kept so far are held last first.\<close>

fun normStep :: "bool \<Rightarrow> string list \<Rightarrow> string \<Rightarrow> string list" where
  "normStep allowAboveRoot res seg =
     (if seg = [] \<or> seg = ''.'' then res
      else if seg = ''..'' then
        (case res of
           [] \<Rightarrow> if allowAboveRoot then [''..''] else []
         | s # rest \<Rightarrow>
             if s = ''..'' then (if allowAboveRoot then ''..'' # res else res)
             else rest)
      else seg # res)"

definition normSegs :: "bool \<Rightarrow> string list \<Rightarrow> string list" where
  "normSegs allowAboveRoot segs = foldl (normStep allowAboveRoot) [] segs"

definition normalizeString :: "string \<Rightarrow> bool \<Rightarrow> string" where
  "normalizeString path allowAboveRoot =
     joinSep (rev (normSegs allowAboveRoot (splitSep path)))"

definition normalize :: "string \<Rightarrow> string" where
  "normalize path =
     (if path = [] then ''.''
      else
        let isAbsolute = (hd path = CHR ''/'');
            trailingSeparator = (last path = CHR ''/'');
            p = normalizeString path (\<not> isAbsolute)
        in if p = [] then
             (if isAbsolute then ''/'' else if trailingSeparator then ''./'' else ''.'')
           else
             (if isAbsolute then ''/'' else []) @ p @
             (if trailingSeparator then ''/'' else []))"

definition join :: "string list \<Rightarrow> string" where
  "join args =
     (let joined = filter (\<lambda>arg. arg \<noteq> []) args
      in if joined = [] then ''.'' else normalize (joinSep joined))"

subsection \<open>Argument parsing\<close>

definition processArgs :: "Collab \<Rightarrow> Client \<Rightarrow> unit + Argv" where
  "processArgs k client = getArgs k (drop 2 (argv client))"

text \<open>\<open>parseArgs\<close>: a number (\<open>Inl\<close>) or the arguments.\<close>

definition parseArgs :: "Collab \<Rightarrow> Client \<Rightarrow> Event list \<Rightarrow> (int + Argv) \<times> Event list" where
  "parseArgs k client tr =
     (case processArgs k client of
        Inr a \<Rightarrow> if arg_help a then (Inl 2, tr @ [Ev_help]) else (Inr a, tr)
      | Inl err \<Rightarrow> (Inl 1, tr @ [Ev_handleError]))"

subsection \<open>Link resolution\<close>

text \<open>\<open>ensureLink\<close>: a number (\<open>Inl\<close>) or the organisation and the project.\<close>

definition ensureLink ::
  "Collab \<Rightarrow> Client \<Rightarrow> string \<Rightarrow> bool \<Rightarrow> Event list \<Rightarrow> (int + Org \<times> Project) \<times> Event list"
where
  "ensureLink k client cwd yes tr =
     (let tr1 = tr @ [Ev_getLinkedProject cwd] in
      case getLinkedProject k client cwd of
        NotLinked \<Rightarrow>
          (let tr2 = tr1 @ [Ev_setupAndLink cwd yes] in
           case setupAndLink k client cwd yes of
             NotLinked \<Rightarrow> (Inl 0, tr2)
           | LinkError exitCode \<Rightarrow> (Inl exitCode, tr2)
           | Linked org project \<Rightarrow> (Inr (org, project), tr2))
      | LinkError exitCode \<Rightarrow> (Inl exitCode, tr1)
      | Linked org project \<Rightarrow> (Inr (org, project), tr1))"

subsection \<open>The four downloads and their result\<close>

text \<open>\<open>a || b\<close> on numbers: \<open>a\<close> unless it is \<open>0\<close>.\<close>

definition js_or :: "int \<Rightarrow> int \<Rightarrow> int" where
  "js_or a b = (if a \<noteq> 0 then a else b)"

definition aggregate :: "int \<Rightarrow> int \<Rightarrow> int \<Rightarrow> int \<Rightarrow> int" where
  "aggregate pullDeprecatedDevResultCode pullDevResultCode pullPreviewResultCode
       pullProdResultCode =
     js_or (js_or (js_or (js_or pullDeprecatedDevResultCode pullDevResultCode)
       pullPreviewResultCode) pullProdResultCode) 0"

text \<open>
  Modelled from the spec: the download of one environment file, \<open>envPull\<close> of
  commands/env/pull.ts, is not among the sources. By the spec it takes the project, the
  target, the arguments and the candidate destination paths, reads the shared client
  (the active team context among others) and resolves to an exit code; no task mutates
  the shared client. So a call returns the code that the collaborator computes from what
  it is given, and the client as it was.
\<close>

definition runEnvPull ::
  "Collab \<Rightarrow> Client \<Rightarrow> Project \<Rightarrow> ProjectEnvTarget \<Rightarrow> Argv \<Rightarrow> string list \<Rightarrow> int \<times> Client"
where
  "runEnvPull k client project target a paths =
     (envPull k client project target a paths, client)"

text \<open>
  \<open>pullAllEnvFiles\<close> starts the four downloads in the order of the source and waits for
  all of them; the result is the code, the client after the downloads and the trace.
\<close>

definition pullAllEnvFiles ::
  "Collab \<Rightarrow> string \<Rightarrow> Client \<Rightarrow> Project \<Rightarrow> Argv \<Rightarrow> string \<Rightarrow> Event list
     \<Rightarrow> int \<times> Client \<times> Event list"
where
  "pullAllEnvFiles k envFileRoot client project a cwd tr =
     (let deprecatedPaths = [join [cwd, envFileRoot]];
          (pullDeprecatedDevResultCode, client1) =
             runEnvPull k client project Development a deprecatedPaths;
          devEnvFile = envFileRoot @ ''.development.local'';
          devPaths = [join [cwd, ''.vercel'', devEnvFile]];
          (pullDevResultCode, client2) =
             runEnvPull k client1 project Development a devPaths;
          previewEnvFile = envFileRoot @ ''.preview.local'';
          previewPaths = [join [cwd, ''.vercel'', previewEnvFile]];
          (pullPreviewResultCode, client3) =
             runEnvPull k client2 project Preview a previewPaths;
          prodEnvFile = envFileRoot @ ''.production.local'';
          prodPaths = [join [cwd, ''.vercel'', prodEnvFile]];
          (pullProdResultCode, client4) =
             runEnvPull k client3 project Production a prodPaths;
          tr1 = tr @ [Ev_envPull client Development deprecatedPaths,
                      Ev_envPull client1 Development devPaths,
                      Ev_envPull client2 Preview previewPaths,
                      Ev_envPull client3 Production prodPaths]
      in (aggregate pullDeprecatedDevResultCode pullDevResultCode pullPreviewResultCode
            pullProdResultCode, client4, tr1))"

subsection \<open>The command\<close>

text \<open>The locals \<open>cwd\<close>, \<open>yes\<close> and \<open>env\<close> of \<open>main\<close>, and the value it assigns to
  \<open>client.config.currentTeam\<close>.\<close>

definition main_cwd :: "Collab \<Rightarrow> Argv \<Rightarrow> string" where
  "main_cwd k a =
     (case arg_positional a of
        p0 # p1 # ps \<Rightarrow> if p1 = [] then process_cwd k else p1
      | _ \<Rightarrow> process_cwd k)"

definition main_yes :: "Argv \<Rightarrow> bool" where
  "main_yes a = (case arg_yes a of Some b \<Rightarrow> b | None \<Rightarrow> False)"

definition main_env :: "Argv \<Rightarrow> string" where
  "main_env a = (case arg_env a of Some e \<Rightarrow> e | None \<Rightarrow> ''.env'')"

definition teamContext :: "Org \<Rightarrow> string option" where
  "teamContext org = (if org_type org = ''team'' then Some (org_id org) else None)"

text \<open>\<open>main\<close>: the exit code, the client at the end and the trace of the run.\<close>

definition main :: "Collab \<Rightarrow> Client \<Rightarrow> int \<times> Client \<times> Event list" where
  "main k client =
     (case parseArgs k client [] of
        (Inl n, tr) \<Rightarrow> (n, client, tr)
      | (Inr a, tr) \<Rightarrow>
          (let cwd = main_cwd k a;
               yes = main_yes a;
               env = main_env a
           in case ensureLink k client cwd yes tr of
                (Inl n, tr1) \<Rightarrow> (n, client, tr1)
              | (Inr (org, project), tr1) \<Rightarrow>
                  (let client1 = client\<lparr>currentTeam := teamContext org\<rparr>;
                       tr2 = tr1 @ [Ev_setCurrentTeam (teamContext org)];
                       (pullResultCode, client2, tr3) =
                          pullAllEnvFiles k env client1 project a cwd tr2
                   in if pullResultCode \<noteq> 0 then (pullResultCode, client2, tr3)
                      else (0, client2,
                            tr3 @ [Ev_writeProjectSettings cwd project org, Ev_print]))))"

abbreviation exitCode :: "int \<times> Client \<times> Event list \<Rightarrow> int" where
  "exitCode r \<equiv> fst r"

abbreviation clientAfter :: "int \<times> Client \<times> Event list \<Rightarrow> Client" where
  "clientAfter r \<equiv> fst (snd r)"

abbreviation events :: "int \<times> Client \<times> Event list \<Rightarrow> Event list" where
  "events r \<equiv> snd (snd r)"

subsection \<open>Reading a trace\<close>

fun isSetup :: "Event \<Rightarrow> bool" where
  "isSetup (Ev_setupAndLink cwd yes) = True"
| "isSetup e = False"

fun isSetCurrentTeam :: "Event \<Rightarrow> bool" where
  "isSetCurrentTeam (Ev_setCurrentTeam t) = True"
| "isSetCurrentTeam e = False"

fun isEnvPull :: "Event \<Rightarrow> bool" where
  "isEnvPull (Ev_envPull client target paths) = True"
| "isEnvPull e = False"

fun isWrite :: "Event \<Rightarrow> bool" where
  "isWrite (Ev_writeProjectSettings cwd project org) = True"
| "isWrite e = False"

text \<open>The destination paths handed to the downloads of a trace, in the order of the calls.\<close>

fun destinations :: "Event list \<Rightarrow> string list" where
  "destinations [] = []"
| "destinations (Ev_envPull client target paths # es) = paths @ destinations es"
| "destinations (e # es) = destinations es"

subsection \<open>Reading a path\<close>

text \<open>
  For the proofs about \<open>join\<close>: a segment that normalising keeps is not empty, not \<open>.\<close>
  and has no slash; \<open>stackOf\<close> is the list of segments that normalising a path keeps
  (last first); \<open>segsOf\<close> reads the segments back from a normalised path. The height of
  a list of kept segments counts \<open>..\<close> as one level up and any other segment as one
  level down; \<open>hstep\<close> is what one segment does to the height, and \<open>rooted\<close> says that an
  absolute path keeps no \<open>..\<close>.
\<close>

definition plainSeg :: "string \<Rightarrow> bool" where
  "plainSeg s = (s \<noteq> [] \<and> s \<noteq> ''.'' \<and> CHR ''/'' \<notin> set s)"

definition stackOf :: "string \<Rightarrow> string list" where
  "stackOf path = normSegs (hd path \<noteq> CHR ''/'') (splitSep path)"

definition segsOf :: "string \<Rightarrow> string list" where
  "segsOf path = filter (\<lambda>s. s \<noteq> []) (splitSep path)"

fun height :: "string list \<Rightarrow> int" where
  "height [] = 0"
| "height (s # st) = (if s = ''..'' then - 1 else 1) + height st"

definition hstep :: "bool \<Rightarrow> int \<Rightarrow> string \<Rightarrow> int" where
  "hstep allowAboveRoot h seg =
     (if seg = [] \<or> seg = ''.'' then h
      else if seg = ''..'' then (if allowAboveRoot then h - 1 else max 0 (h - 1))
      else h + 1)"

definition rooted :: "bool \<Rightarrow> string list \<Rightarrow> bool" where
  "rooted m st = (m \<or> ''..'' \<notin> set st)"

subsection \<open>Sample runs\<close>

text \<open>
  A run is fixed by what the collaborators answer: the parsed arguments, the link
  lookup, the interactive setup and the code of each download (here a function of the
  team context the download sees, its target and its destinations).
\<close>

definition scenario ::
  "(unit + Argv) \<Rightarrow> ProjectLinkResult \<Rightarrow> ProjectLinkResult
     \<Rightarrow> (string option \<Rightarrow> ProjectEnvTarget \<Rightarrow> string list \<Rightarrow> int) \<Rightarrow> Collab"
where
  "scenario parsed lookup setup code =
     \<lparr>getArgs = (\<lambda>args. parsed),
      getLinkedProject = (\<lambda>client cwd. lookup),
      setupAndLink = (\<lambda>client cwd yes. setup),
      envPull = (\<lambda>client project target a paths. code (currentTeam client) target paths),
      process_cwd = ''/proj''\<rparr>"

definition plainArgv :: Argv where
  "plainArgv = \<lparr>arg_help = False, arg_yes = None, arg_env = None, arg_positional = [''pull'']\<rparr>"

definition teamOrg :: Org where
  "teamOrg = \<lparr>org_type = ''team'', org_id = ''team_T1''\<rparr>"

definition userOrg :: Org where
  "userOrg = \<lparr>org_type = ''user'', org_id = ''user_U1''\<rparr>"

definition projectP1 :: Project where
  "projectP1 = \<lparr>project_id = ''prj_P1''\<rparr>"

definition client0 :: Client where
  "client0 = \<lparr>argv = [''node'', ''vercel'', ''pull''], currentTeam = Some ''team_old''\<rparr>"

text \<open>Every download succeeds.\<close>

definition allOk :: "string option \<Rightarrow> ProjectEnvTarget \<Rightarrow> string list \<Rightarrow> int" where
  "allOk team target paths = 0"

text \<open>The preview download fails with 3 and the production download with 4.\<close>

definition previewFails :: "string option \<Rightarrow> ProjectEnvTarget \<Rightarrow> string list \<Rightarrow> int" where
  "previewFails team target paths =
     (case target of Development \<Rightarrow> 0 | Preview \<Rightarrow> 3 | Production \<Rightarrow> 4)"

section \<open>Properties\<close>

text \<open>
  C1. The result of the four downloads, taken in the order legacy development,
  development, preview, production, is \<open>0\<close> exactly when all four codes are \<open>0\<close>, and
  otherwise it is the first code in that order that is not \<open>0\<close>.
\<close>

theorem aggregate_first_nonzero:
  "(aggregate a b c d = 0 \<longleftrightarrow> a = 0 \<and> b = 0 \<and> c = 0 \<and> d = 0) \<and>
   aggregate a b c d = (case filter (\<lambda>r. r \<noteq> 0) [a, b, c, d] of [] \<Rightarrow> 0 | r # rs \<Rightarrow> r)"
  by (simp add: aggregate_def js_or_def)

subsection \<open>Stages of a run\<close>

lemma parseArgs_Inr:
  "parseArgs k client tr = (Inr a, tr') \<Longrightarrow>
     tr' = tr \<and> processArgs k client = Inr a \<and> \<not> arg_help a"
  by (auto simp: parseArgs_def split: sum.splits if_splits)

lemma ensureLink_events:
  "snd (ensureLink k client cwd yes tr) =
     tr @ Ev_getLinkedProject cwd #
       (if getLinkedProject k client cwd = NotLinked then [Ev_setupAndLink cwd yes] else [])"
  by (simp add: ensureLink_def Let_def split: ProjectLinkResult.splits)

lemma pullAllEnvFiles_unfold:
  "pullAllEnvFiles k envFileRoot client project a cwd tr =
     (aggregate
        (envPull k client project Development a [join [cwd, envFileRoot]])
        (envPull k client project Development a
           [join [cwd, ''.vercel'', envFileRoot @ ''.development.local'']])
        (envPull k client project Preview a
           [join [cwd, ''.vercel'', envFileRoot @ ''.preview.local'']])
        (envPull k client project Production a
           [join [cwd, ''.vercel'', envFileRoot @ ''.production.local'']]),
      client,
      tr @ [Ev_envPull client Development [join [cwd, envFileRoot]],
            Ev_envPull client Development
              [join [cwd, ''.vercel'', envFileRoot @ ''.development.local'']],
            Ev_envPull client Preview
              [join [cwd, ''.vercel'', envFileRoot @ ''.preview.local'']],
            Ev_envPull client Production
              [join [cwd, ''.vercel'', envFileRoot @ ''.production.local'']]])"
  by (simp add: pullAllEnvFiles_def runEnvPull_def Let_def)

lemma main_linked:
  assumes "parseArgs k client [] = (Inr a, tr)"
    and "ensureLink k client (main_cwd k a) (main_yes a) tr = (Inr (org, project), tr1)"
  shows "main k client =
     (let client1 = client\<lparr>currentTeam := teamContext org\<rparr>;
          r = pullAllEnvFiles k (main_env a) client1 project a (main_cwd k a)
                (tr1 @ [Ev_setCurrentTeam (teamContext org)])
      in if exitCode r \<noteq> 0 then r
         else (0, clientAfter r,
               events r @ [Ev_writeProjectSettings (main_cwd k a) project org, Ev_print]))"
  using assms by (simp add: main_def Let_def split: prod.splits)


lemma main_not_resolved:
  assumes "parseArgs k client [] = (Inr a, tr)"
    and "ensureLink k client (main_cwd k a) (main_yes a) tr = (Inl n, tr1)"
  shows "main k client = (n, client, tr1)"
  using assms by (simp add: main_def Let_def)

text \<open>
  C2. In a run that reaches the downloads, \<open>writeProjectSettings\<close> is called exactly
  when the result of the four downloads is \<open>0\<close>, and then once; when the result is not
  \<open>0\<close> the command returns that code and the settings are not written.
\<close>

theorem settings_written_iff_sync_ok:
  assumes "parseArgs k client [] = (Inr a, tr)"
    and "ensureLink k client (main_cwd k a) (main_yes a) tr = (Inr (org, project), tr1)"
    and "client1 = client\<lparr>currentTeam := teamContext org\<rparr>"
    and "code = aggregate
           (envPull k client1 project Development a [join [main_cwd k a, main_env a]])
           (envPull k client1 project Development a
              [join [main_cwd k a, ''.vercel'', main_env a @ ''.development.local'']])
           (envPull k client1 project Preview a
              [join [main_cwd k a, ''.vercel'', main_env a @ ''.preview.local'']])
           (envPull k client1 project Production a
              [join [main_cwd k a, ''.vercel'', main_env a @ ''.production.local'']])"
  shows "(filter isWrite (events (main k client)) \<noteq> [] \<longleftrightarrow> code = 0) \<and>
         (code = 0 \<longrightarrow> exitCode (main k client) = 0 \<and>
            filter isWrite (events (main k client)) =
              [Ev_writeProjectSettings (main_cwd k a) project org]) \<and>
         (code \<noteq> 0 \<longrightarrow> exitCode (main k client) = code \<and>
            filter isWrite (events (main k client)) = [])"
proof -
  have tr: "tr = []" using assms(1) parseArgs_Inr by blast
  have tr1: "filter isWrite tr1 = []"
    using ensureLink_events [of k client "main_cwd k a" "main_yes a" tr] assms(2) tr
    by (auto split: if_splits)
  show ?thesis
    using tr1 assms(3,4)
    by (simp add: main_linked [OF assms(1,2)] pullAllEnvFiles_unfold Let_def)
qed

theorem settings_written_iff_sync_ok_witness:
  "filter isWrite (events (main (scenario (Inr plainArgv) (Linked teamOrg projectP1) NotLinked allOk) client0))
     = [Ev_writeProjectSettings ''/proj'' projectP1 teamOrg] \<and>
   exitCode (main (scenario (Inr plainArgv) (Linked teamOrg projectP1) NotLinked allOk) client0) = 0 \<and>
   filter isWrite (events (main (scenario (Inr plainArgv) (Linked teamOrg projectP1) NotLinked previewFails) client0))
     = [] \<and>
   exitCode (main (scenario (Inr plainArgv) (Linked teamOrg projectP1) NotLinked previewFails) client0) = 3"
proof -
  let ?k = "scenario (Inr plainArgv) (Linked teamOrg projectP1) NotLinked allOk"
  let ?k' = "scenario (Inr plainArgv) (Linked teamOrg projectP1) NotLinked previewFails"
  have p: "parseArgs ?k client0 [] = (Inr plainArgv, [])"
    by (simp add: parseArgs_def processArgs_def scenario_def plainArgv_def)
  have p': "parseArgs ?k' client0 [] = (Inr plainArgv, [])"
    by (simp add: parseArgs_def processArgs_def scenario_def plainArgv_def)
  have l: "ensureLink ?k client0 (main_cwd ?k plainArgv) (main_yes plainArgv) [] =
             (Inr (teamOrg, projectP1), [Ev_getLinkedProject ''/proj''])"
    by (simp add: ensureLink_def scenario_def main_cwd_def plainArgv_def)
  have l': "ensureLink ?k' client0 (main_cwd ?k' plainArgv) (main_yes plainArgv) [] =
             (Inr (teamOrg, projectP1), [Ev_getLinkedProject ''/proj''])"
    by (simp add: ensureLink_def scenario_def main_cwd_def plainArgv_def)
  have c: "main_cwd ?k plainArgv = ''/proj''" "main_cwd ?k' plainArgv = ''/proj''"
    by (simp_all add: scenario_def main_cwd_def plainArgv_def)
  show ?thesis
    using settings_written_iff_sync_ok [OF p l refl refl]
      settings_written_iff_sync_ok [OF p' l' refl refl]
    by (simp add: c) (simp add: scenario_def allOk_def previewFails_def aggregate_def js_or_def)
qed


text \<open>
  C3. When the directory is not linked and the interactive setup reports
  \<open>not_linked\<close> as well (the user aborted), the command returns \<open>0\<close>; the run consists
  of the lookup and the setup only, so no download is started and no settings are
  written.
\<close>

theorem abort_is_silent_success:
  assumes "parseArgs k client [] = (Inr a, tr)"
    and "getLinkedProject k client (main_cwd k a) = NotLinked"
    and "setupAndLink k client (main_cwd k a) (main_yes a) = NotLinked"
  shows "fst (ensureLink k client (main_cwd k a) (main_yes a) tr) = Inl 0 \<and>
         main k client =
           (0, client,
            [Ev_getLinkedProject (main_cwd k a),
             Ev_setupAndLink (main_cwd k a) (main_yes a)]) \<and>
         filter isEnvPull (events (main k client)) = [] \<and>
         filter isWrite (events (main k client)) = []"
proof -
  have tr: "tr = []" using assms(1) parseArgs_Inr by blast
  have e: "ensureLink k client (main_cwd k a) (main_yes a) tr =
             (Inl 0, [Ev_getLinkedProject (main_cwd k a),
                      Ev_setupAndLink (main_cwd k a) (main_yes a)])"
    using assms(2,3) tr by (simp add: ensureLink_def)
  show ?thesis
    by (simp add: main_not_resolved [OF assms(1) e] e)
qed

theorem abort_is_silent_success_witness:
  "main (scenario (Inr plainArgv) NotLinked NotLinked previewFails) client0 =
     (0, client0, [Ev_getLinkedProject ''/proj'', Ev_setupAndLink ''/proj'' False])"
proof -
  let ?k = "scenario (Inr plainArgv) NotLinked NotLinked previewFails"
  have p: "parseArgs ?k client0 [] = (Inr plainArgv, [])"
    by (simp add: parseArgs_def processArgs_def scenario_def plainArgv_def)
  have g: "getLinkedProject ?k client0 (main_cwd ?k plainArgv) = NotLinked"
    by (simp add: scenario_def)
  have s: "setupAndLink ?k client0 (main_cwd ?k plainArgv) (main_yes plainArgv) = NotLinked"
    by (simp add: scenario_def)
  have c: "main_cwd ?k plainArgv = ''/proj''" "main_yes plainArgv = False"
    by (simp_all add: scenario_def main_cwd_def main_yes_def plainArgv_def)
  show ?thesis
    using abort_is_silent_success [OF p g s] unfolding c by simp
qed

text \<open>
  C4. When the lookup finds the directory linked, \<open>ensureLink\<close> returns that link after
  the lookup alone; the interactive setup is not called, neither by \<open>ensureLink\<close> nor
  anywhere else in the run.
\<close>

theorem linked_skips_setup:
  assumes "getLinkedProject k client cwd = Linked org project"
  shows "ensureLink k client cwd yes tr =
           (Inr (org, project), tr @ [Ev_getLinkedProject cwd]) \<and>
         filter isSetup (snd (ensureLink k client cwd yes tr)) = filter isSetup tr \<and>
         (parseArgs k client [] = (Inr a, tr0) \<and> cwd = main_cwd k a \<longrightarrow>
            filter isSetup (events (main k client)) = [])"
proof -
  have e: "ensureLink k client cwd yes tr =
             (Inr (org, project), tr @ [Ev_getLinkedProject cwd])" for yes tr
    using assms by (simp add: ensureLink_def)
  have "filter isSetup (events (main k client)) = []"
    if p: "parseArgs k client [] = (Inr a, tr0)" and c: "cwd = main_cwd k a"
  proof -
    have tr0: "tr0 = []" using p parseArgs_Inr by blast
    show ?thesis
      using main_linked [OF p e [of "main_yes a" tr0, unfolded c]] tr0
      by (simp add: pullAllEnvFiles_unfold Let_def)
  qed
  then show ?thesis by (simp add: e)
qed

theorem linked_skips_setup_witness:
  "ensureLink (scenario (Inr plainArgv) (Linked userOrg projectP1) (LinkError 7) allOk)
       client0 ''/proj'' False [] =
     (Inr (userOrg, projectP1), [Ev_getLinkedProject ''/proj'']) \<and>
   filter isSetup (events (main
       (scenario (Inr plainArgv) (Linked userOrg projectP1) (LinkError 7) allOk) client0)) = []"
proof -
  let ?k = "scenario (Inr plainArgv) (Linked userOrg projectP1) (LinkError 7) allOk"
  have g: "getLinkedProject ?k client0 ''/proj'' = Linked userOrg projectP1"
    by (simp add: scenario_def)
  have p: "parseArgs ?k client0 [] = (Inr plainArgv, [])"
    by (simp add: parseArgs_def processArgs_def scenario_def plainArgv_def)
  have c: "''/proj'' = main_cwd ?k plainArgv"
    by (simp add: scenario_def main_cwd_def plainArgv_def)
  show ?thesis
    using linked_skips_setup [OF g, of False "[]" plainArgv "[]"] p c by simp
qed

text \<open>
  C5. When the lookup reports an error with an exit code, or reports \<open>not_linked\<close> and
  the interactive setup then reports an error with an exit code, \<open>ensureLink\<close> returns
  that code and the command returns it unchanged, with no download and no settings
  written.
\<close>

theorem link_error_passes_through:
  assumes "getLinkedProject k client cwd = LinkError code \<or>
           getLinkedProject k client cwd = NotLinked \<and>
           setupAndLink k client cwd yes = LinkError code"
  shows "fst (ensureLink k client cwd yes tr) = Inl code \<and>
         (parseArgs k client [] = (Inr a, tr0) \<and> cwd = main_cwd k a \<and> yes = main_yes a \<longrightarrow>
            exitCode (main k client) = code \<and>
            filter isEnvPull (events (main k client)) = [] \<and>
            filter isWrite (events (main k client)) = [])"
proof -
  have e: "ensureLink k client cwd yes tr =
             (Inl code, tr @ Ev_getLinkedProject cwd #
                (if getLinkedProject k client cwd = NotLinked
                 then [Ev_setupAndLink cwd yes] else []))" for tr
    using assms by (auto simp: ensureLink_def)
  have "exitCode (main k client) = code \<and>
        filter isEnvPull (events (main k client)) = [] \<and>
        filter isWrite (events (main k client)) = []"
    if p: "parseArgs k client [] = (Inr a, tr0)"
      and c: "cwd = main_cwd k a" "yes = main_yes a"
  proof -
    have tr0: "tr0 = []" using p parseArgs_Inr by blast
    show ?thesis
      using main_not_resolved [OF p e [of tr0, unfolded c]] tr0 by simp
  qed
  then show ?thesis by (simp add: e)
qed

theorem link_error_passes_through_witness:
  "exitCode (main (scenario (Inr plainArgv) (LinkError 7) NotLinked allOk) client0) = 7 \<and>
   exitCode (main (scenario (Inr plainArgv) NotLinked (LinkError (- 9)) allOk) client0) = - 9"
proof -
  let ?k = "scenario (Inr plainArgv) (LinkError 7) NotLinked allOk"
  let ?k' = "scenario (Inr plainArgv) NotLinked (LinkError (- 9)) allOk"
  have g: "getLinkedProject ?k client0 ''/proj'' = LinkError 7 \<or>
           getLinkedProject ?k client0 ''/proj'' = NotLinked \<and>
           setupAndLink ?k client0 ''/proj'' False = LinkError 7"
    by (simp add: scenario_def)
  have g': "getLinkedProject ?k' client0 ''/proj'' = LinkError (- 9) \<or>
           getLinkedProject ?k' client0 ''/proj'' = NotLinked \<and>
           setupAndLink ?k' client0 ''/proj'' False = LinkError (- 9)"
    by (simp add: scenario_def)
  have p: "parseArgs ?k client0 [] = (Inr plainArgv, [])"
      "parseArgs ?k' client0 [] = (Inr plainArgv, [])"
    by (simp_all add: parseArgs_def processArgs_def scenario_def plainArgv_def)
  have c: "''/proj'' = main_cwd ?k plainArgv" "''/proj'' = main_cwd ?k' plainArgv"
      "False = main_yes plainArgv"
    by (simp_all add: scenario_def main_cwd_def main_yes_def plainArgv_def)
  show ?thesis
    using link_error_passes_through [OF g, of "[]" plainArgv "[]"]
      link_error_passes_through [OF g', of "[]" plainArgv "[]"] p c
    by simp
qed

text \<open>
  C9. With the help flag the command prints the usage and returns \<open>2\<close>; when the
  argument parser throws, it reports the error and returns \<open>1\<close>. In both cases the run
  ends there: no link resolution, no download, no settings written.
\<close>

theorem parse_stops_the_run:
  "(processArgs k client = Inr a \<and> arg_help a \<longrightarrow>
      main k client = (2, client, [Ev_help])) \<and>
   (processArgs k client = Inl err \<longrightarrow>
      main k client = (1, client, [Ev_handleError]))"
  by (simp add: main_def parseArgs_def)

theorem parse_stops_the_run_witness:
  "main (scenario (Inr (plainArgv\<lparr>arg_help := True\<rparr>)) (Linked teamOrg projectP1) NotLinked allOk)
      client0 = (2, client0, [Ev_help]) \<and>
   main (scenario (Inl ()) (Linked teamOrg projectP1) NotLinked allOk) client0 =
     (1, client0, [Ev_handleError])"
  using parse_stops_the_run
     [of "scenario (Inr (plainArgv\<lparr>arg_help := True\<rparr>)) (Linked teamOrg projectP1) NotLinked allOk"
         client0 "plainArgv\<lparr>arg_help := True\<rparr>" "()"]
    parse_stops_the_run
     [of "scenario (Inl ()) (Linked teamOrg projectP1) NotLinked allOk" client0 plainArgv "()"]
  by (simp add: processArgs_def scenario_def)

text \<open>
  C7. After the link is resolved, \<open>client.config.currentTeam\<close> is assigned once, before
  the first download starts: the id of the organisation when its type is \<open>team\<close>, and
  \<open>undefined\<close> otherwise. Every download is handed the client with that team context,
  nothing after the assignment changes it, and it is the client's team context at the
  end of the run.
\<close>

theorem team_context_set_once_before_sync:
  assumes "parseArgs k client [] = (Inr a, tr)"
    and "ensureLink k client (main_cwd k a) (main_yes a) tr = (Inr (org, project), tr1)"
    and "client1 = client\<lparr>currentTeam := teamContext org\<rparr>"
  shows "(\<exists>rest. events (main k client) =
            tr1 @ [Ev_setCurrentTeam (teamContext org),
                   Ev_envPull client1 Development [join [main_cwd k a, main_env a]],
                   Ev_envPull client1 Development
                     [join [main_cwd k a, ''.vercel'', main_env a @ ''.development.local'']],
                   Ev_envPull client1 Preview
                     [join [main_cwd k a, ''.vercel'', main_env a @ ''.preview.local'']],
                   Ev_envPull client1 Production
                     [join [main_cwd k a, ''.vercel'', main_env a @ ''.production.local'']]]
              @ rest \<and>
            filter isSetCurrentTeam rest = [] \<and> filter isEnvPull rest = []) \<and>
         filter isSetCurrentTeam tr1 = [] \<and> filter isEnvPull tr1 = [] \<and>
         filter isSetCurrentTeam (events (main k client)) =
           [Ev_setCurrentTeam (teamContext org)] \<and>
         currentTeam client1 = (if org_type org = ''team'' then Some (org_id org) else None) \<and>
         clientAfter (main k client) = client1"
proof -
  have tr: "tr = []" using assms(1) parseArgs_Inr by blast
  have tr1: "filter isSetCurrentTeam tr1 = []" "filter isEnvPull tr1 = []"
    using ensureLink_events [of k client "main_cwd k a" "main_yes a" tr] assms(2) tr
    by (auto split: if_splits)
  show ?thesis
    using tr1 assms(3)
    by (simp add: main_linked [OF assms(1,2)] pullAllEnvFiles_unfold Let_def teamContext_def)
qed

theorem team_context_set_once_before_sync_witness:
  "clientAfter (main (scenario (Inr plainArgv) (Linked teamOrg projectP1) NotLinked allOk) client0)
     = client0\<lparr>currentTeam := Some ''team_T1''\<rparr> \<and>
   clientAfter (main (scenario (Inr plainArgv) NotLinked (Linked userOrg projectP1) allOk) client0)
     = client0\<lparr>currentTeam := None\<rparr> \<and>
   filter isSetCurrentTeam
     (events (main (scenario (Inr plainArgv) (Linked teamOrg projectP1) NotLinked allOk) client0))
     = [Ev_setCurrentTeam (Some ''team_T1'')]"
proof -
  let ?k = "scenario (Inr plainArgv) (Linked teamOrg projectP1) NotLinked allOk"
  let ?k' = "scenario (Inr plainArgv) NotLinked (Linked userOrg projectP1) allOk"
  have p: "parseArgs ?k client0 [] = (Inr plainArgv, [])"
    by (simp add: parseArgs_def processArgs_def scenario_def plainArgv_def)
  have p': "parseArgs ?k' client0 [] = (Inr plainArgv, [])"
    by (simp add: parseArgs_def processArgs_def scenario_def plainArgv_def)
  have l: "ensureLink ?k client0 (main_cwd ?k plainArgv) (main_yes plainArgv) [] =
             (Inr (teamOrg, projectP1), [Ev_getLinkedProject ''/proj''])"
    by (simp add: ensureLink_def scenario_def main_cwd_def plainArgv_def)
  have l': "ensureLink ?k' client0 (main_cwd ?k' plainArgv) (main_yes plainArgv) [] =
             (Inr (userOrg, projectP1),
              [Ev_getLinkedProject ''/proj'', Ev_setupAndLink ''/proj'' False])"
    by (simp add: ensureLink_def scenario_def main_cwd_def main_yes_def plainArgv_def)
  show ?thesis
    using team_context_set_once_before_sync [OF p l refl]
      team_context_set_once_before_sync [OF p' l' refl]
    by (simp add: teamContext_def teamOrg_def userOrg_def)
qed

subsection \<open>Paths\<close>

text \<open>
  Two normalised paths are equal only if normalising kept the same segments
  (\<open>normalize_eq_stack\<close>). The three suffixed destinations end in different kept
  segments. The legacy destination and a suffixed one differ in the last kept segment
  when the root ends in a file name, and in height otherwise: the suffixed path is one
  level deeper from \<open>.vercel\<close> on, a step never reverses the order of two heights, and
  its last segment goes one level down where the root's last segment does not.
\<close>

lemma splitSep_not_Nil [simp]: "splitSep p \<noteq> []"
  by (induction p) (auto split: list.splits)

lemma splitSep_append_sep:
  "splitSep (a @ CHR ''/'' # b) = splitSep a @ splitSep b"
  by (induction a) (auto split: list.splits)

lemma splitSep_no_sep: "CHR ''/'' \<notin> set s \<Longrightarrow> splitSep s = [s]"
  by (induction s) (auto split: list.splits)

lemma splitSep_append_plain:
  "CHR ''/'' \<notin> set s \<Longrightarrow>
     splitSep (a @ s) = butlast (splitSep a) @ [last (splitSep a) @ s]"
proof (induction a)
  case Nil
  then show ?case by (simp add: splitSep_no_sep)
next
  case (Cons c a)
  then show ?case
    by (cases "splitSep a") (auto simp: butlast_append)
qed

lemma splitSep_segments: "s \<in> set (splitSep p) \<Longrightarrow> CHR ''/'' \<notin> set s"
proof (induction p arbitrary: s)
  case Nil
  then show ?case by simp
next
  case (Cons c p)
  then show ?case
    by (cases "splitSep p") (auto split: if_splits)
qed

lemma splitSep_joinSep:
  "segs \<noteq> [] \<Longrightarrow> \<forall>s \<in> set segs. CHR ''/'' \<notin> set s \<Longrightarrow> splitSep (joinSep segs) = segs"
proof (induction segs rule: joinSep.induct)
  case 1
  then show ?case by simp
next
  case (2 s)
  then show ?case by (simp add: splitSep_no_sep)
next
  case (3 s t ss)
  then show ?case
    using splitSep_append_sep [of s "joinSep (t # ss)"] by (simp add: splitSep_no_sep)
qed


lemma normStep_plain:
  "list_all plainSeg res \<Longrightarrow> CHR ''/'' \<notin> set seg \<Longrightarrow>
     list_all plainSeg (normStep m res seg)"
  by (cases res) (auto simp: plainSeg_def)

lemma foldl_normStep_plain:
  "list_all plainSeg res \<Longrightarrow> \<forall>s \<in> set segs. CHR ''/'' \<notin> set s \<Longrightarrow>
     list_all plainSeg (foldl (normStep m) res segs)"
proof (induction segs arbitrary: res)
  case Nil
  then show ?case by simp
next
  case (Cons seg segs)
  then show ?case using normStep_plain [of res seg m] by simp
qed

lemma stackOf_plain: "list_all plainSeg (stackOf path)"
  unfolding stackOf_def normSegs_def
  by (rule foldl_normStep_plain) (auto dest: splitSep_segments)

lemma joinSep_Nil_iff: "list_all plainSeg segs \<Longrightarrow> joinSep segs = [] \<longleftrightarrow> segs = []"
  by (induction segs rule: joinSep.induct) (auto simp: plainSeg_def)

lemma segsOf_joinSep:
  assumes "list_all plainSeg segs"
  shows "segsOf (joinSep segs) = segs"
proof (cases "segs = []")
  case True
  then show ?thesis by (simp add: segsOf_def)
next
  case False
  have "splitSep (joinSep segs) = segs"
    using False assms by (intro splitSep_joinSep) (auto simp: list_all_iff plainSeg_def)
  moreover have "filter (\<lambda>s. s \<noteq> []) segs = segs"
    using assms by (auto simp: list_all_iff plainSeg_def filter_id_conv)
  ultimately show ?thesis by (simp add: segsOf_def)
qed

lemma segsOf_lead: "segsOf (CHR ''/'' # p) = segsOf p"
  by (simp add: segsOf_def)

lemma segsOf_trail: "segsOf (p @ ''/'') = segsOf p"
  using splitSep_append_sep [of p "[]"] by (simp add: segsOf_def)

lemma segsOf_normalize:
  assumes "path \<noteq> []"
  shows "segsOf (normalize path) =
     (if stackOf path = [] then (if hd path = CHR ''/'' then [] else [''.''])
      else rev (stackOf path))"
proof -
  have pl: "list_all plainSeg (rev (stackOf path))"
    using stackOf_plain [of path] by simp
  have ns: "normalizeString path (hd path \<noteq> CHR ''/'') = joinSep (rev (stackOf path))"
    by (simp add: normalizeString_def stackOf_def)
  show ?thesis
  proof (cases "stackOf path = []")
    case True
    then show ?thesis
      using assms ns by (simp add: normalize_def segsOf_def)
  next
    case False
    then have "joinSep (rev (stackOf path)) \<noteq> []"
      using joinSep_Nil_iff [OF pl] by simp
    then show ?thesis
      using assms ns False segsOf_joinSep [OF pl]
      by (simp add: normalize_def Let_def segsOf_lead segsOf_trail del: rev_is_Nil_conv)
  qed
qed

lemma stackOf_no_dot: "stackOf p \<noteq> [''.'']"
proof
  assume "stackOf p = [''.'']"
  then have "''.'' \<in> set (stackOf p)" by simp
  then show False
    using stackOf_plain [of p] by (auto simp: list_all_iff plainSeg_def)
qed

lemma normalize_eq_stack:
  assumes "p \<noteq> []" "q \<noteq> []" "normalize p = normalize q"
  shows "stackOf p = stackOf q"
proof -
  have "segsOf (normalize p) = segsOf (normalize q)" using assms(3) by simp
  then have "(if stackOf p = [] then (if hd p = CHR ''/'' then [] else [''.''])
              else rev (stackOf p)) =
             (if stackOf q = [] then (if hd q = CHR ''/'' then [] else [''.''])
              else rev (stackOf q))"
    by (simp only: segsOf_normalize [OF assms(1)] segsOf_normalize [OF assms(2)])
  then show ?thesis
    using stackOf_no_dot [of p] stackOf_no_dot [of q]
    by (cases "stackOf p = []"; cases "stackOf q = []") (auto split: if_splits dest: sym)
qed


lemma height_rooted: "''..'' \<notin> set st \<Longrightarrow> height st = int (length st)"
  by (induction st) auto

lemma rooted_normStep: "rooted m st \<Longrightarrow> rooted m (normStep m st seg)"
  by (cases st) (auto simp: rooted_def)

lemma rooted_foldl: "rooted m st \<Longrightarrow> rooted m (foldl (normStep m) st segs)"
  by (induction segs arbitrary: st) (simp_all add: rooted_normStep del: normStep.simps)

lemma height_normStep:
  assumes "rooted m st"
  shows "height (normStep m st seg) = hstep m (height st) seg"
proof (cases m)
  case True
  then show ?thesis by (cases st) (auto simp: hstep_def)
next
  case False
  then have nd: "''..'' \<notin> set st" using assms by (simp add: rooted_def)
  then have "height st = int (length st)" by (rule height_rooted)
  then show ?thesis using False nd by (cases st) (auto simp: hstep_def)
qed

lemma height_foldl:
  "rooted m st \<Longrightarrow> height (foldl (normStep m) st segs) = foldl (hstep m) (height st) segs"
proof (induction segs arbitrary: st)
  case Nil
  then show ?case by simp
next
  case (Cons seg segs)
  then show ?case
    using rooted_normStep [of m st seg] height_normStep [of m st seg]
    by (simp del: normStep.simps)
qed

lemma hstep_mono: "h1 \<le> h2 \<Longrightarrow> hstep m h1 seg \<le> hstep m h2 seg"
  by (auto simp: hstep_def)

lemma foldl_hstep_mono: "h1 \<le> h2 \<Longrightarrow> foldl (hstep m) h1 segs \<le> foldl (hstep m) h2 segs"
  by (induction segs arbitrary: h1 h2) (simp_all add: hstep_mono)

lemma height_special:
  assumes "rooted m st" "t = [] \<or> t = ''.'' \<or> t = ''..''"
  shows "height (normStep m st t) \<le> height st"
proof (cases m)
  case True
  then show ?thesis using assms(2) by (cases st) auto
next
  case False
  then have nd: "''..'' \<notin> set st" using assms by (simp add: rooted_def)
  then show ?thesis using False assms(2) by (cases st) auto
qed

lemma stacks_differ:
  assumes "2 < length suf"
  shows "foldl (normStep m) [] (X @ P @ [t]) \<noteq>
         foldl (normStep m) [] (X @ ''.vercel'' # P @ [t @ suf])"
proof -
  let ?C = "foldl (normStep m) [] X"
  let ?L = "foldl (normStep m) ?C P"
  let ?D = "foldl (normStep m) (''.vercel'' # ?C) P"
  have ts: "t @ suf \<noteq> []" "t @ suf \<noteq> ''.''" "t @ suf \<noteq> ''..''"
    using assms by (auto simp: append_eq_Cons_conv)
  have rC: "rooted m ?C" by (rule rooted_foldl) (simp add: rooted_def)
  then have rV: "rooted m (''.vercel'' # ?C)" by (simp add: rooted_def)
  have rL: "rooted m ?L" using rC by (rule rooted_foldl)
  have lhs: "foldl (normStep m) [] (X @ P @ [t]) = normStep m ?L t" by simp
  have rhs: "foldl (normStep m) [] (X @ ''.vercel'' # P @ [t @ suf]) = (t @ suf) # ?D"
    using ts by simp
  show ?thesis
  proof (cases "t = [] \<or> t = ''.'' \<or> t = ''..''")
    case True
    have "height (normStep m ?L t) \<le> height ?L" using rL True by (rule height_special)
    also have "height ?L \<le> height ?D"
      using foldl_hstep_mono [of "height ?C" "height (''.vercel'' # ?C)" m P]
      by (simp add: height_foldl [OF rC] height_foldl [OF rV] del: foldl_Cons)
    also have "height ?D < height ((t @ suf) # ?D)" using ts by simp
    finally have "height (normStep m ?L t) \<noteq> height ((t @ suf) # ?D)" by simp
    then show ?thesis unfolding lhs rhs by metis
  next
    case False
    then have "normStep m ?L t = t # ?L" by simp
    moreover have "t \<noteq> t @ suf" using assms by auto
    ultimately show ?thesis unfolding lhs rhs by simp
  qed
qed


lemma normalize_differ:
  assumes "p \<noteq> []" "q \<noteq> []"
    and "(hd q \<noteq> CHR ''/'') = m"
    and "stackOf p = foldl (normStep m) [] (X @ splitSep R)"
    and "splitSep q = X @ ''.vercel'' # splitSep (R @ suf)"
    and "2 < length suf" "CHR ''/'' \<notin> set suf"
  shows "normalize p \<noteq> normalize q"
proof
  assume eq: "normalize p = normalize q"
  let ?P = "butlast (splitSep R)" and ?t = "last (splitSep R)"
  have "splitSep R = ?P @ [?t]" by simp
  then have sp: "stackOf p = foldl (normStep m) [] (X @ ?P @ [?t])"
    using assms(4) by simp
  have "splitSep (R @ suf) = ?P @ [?t @ suf]"
    using assms(7) by (rule splitSep_append_plain)
  then have sq: "stackOf q = foldl (normStep m) [] (X @ ''.vercel'' # ?P @ [?t @ suf])"
    using assms(3,5) by (simp add: stackOf_def normSegs_def)
  have "stackOf p = stackOf q" using assms(1,2) eq by (rule normalize_eq_stack)
  then show False
    using stacks_differ [OF assms(6), of m X ?P ?t] unfolding sp sq by simp
qed

lemma hd_joinSep:
  assumes "list_all plainSeg st" "st \<noteq> []"
  shows "joinSep st \<noteq> [] \<and> hd (joinSep st) \<noteq> CHR ''/''"
proof -
  have "hd s \<noteq> CHR ''/''" if "s \<noteq> []" "CHR ''/'' \<notin> set s" for s :: string
    using that by (cases s) auto
  then show ?thesis
    using assms by (induction st rule: joinSep.induct) (auto simp: plainSeg_def hd_append)
qed

lemma normalize_hd:
  assumes "p \<noteq> []"
  shows "normalize p \<noteq> [] \<and> (hd (normalize p) = CHR ''/'' \<longleftrightarrow> hd p = CHR ''/'')"
proof -
  have pl: "list_all plainSeg (rev (stackOf p))"
    using stackOf_plain [of p] by simp
  have ns: "normalizeString p (hd p \<noteq> CHR ''/'') = joinSep (rev (stackOf p))"
    by (simp add: normalizeString_def stackOf_def)
  show ?thesis
  proof (cases "stackOf p = []")
    case True
    then show ?thesis using assms ns by (simp add: normalize_def)
  next
    case False
    then have "joinSep (rev (stackOf p)) \<noteq> [] \<and> hd (joinSep (rev (stackOf p))) \<noteq> CHR ''/''"
      using hd_joinSep [OF pl] by simp
    then show ?thesis using assms ns by (simp add: normalize_def Let_def hd_append)
  qed
qed

lemma splitSep_vercel:
  "splitSep (''.vercel/'' @ r) = ''.vercel'' # splitSep r"
  using splitSep_append_sep [of "''.vercel''" r] by simp

lemma legacy_differs:
  assumes "2 < length suf" "CHR ''/'' \<notin> set suf"
  shows "join [cwd, R] \<noteq> join [cwd, ''.vercel'', R @ suf]"
proof -
  have suf: "suf \<noteq> []" using assms(1) by auto
  show ?thesis
  proof (cases "cwd = []")
    case True
    let ?q = "''.vercel/'' @ R @ suf"
    have jq: "join [cwd, ''.vercel'', R @ suf] = normalize ?q"
      using True suf by (simp add: join_def)
    have sq: "splitSep ?q = [] @ ''.vercel'' # splitSep (R @ suf)"
      using splitSep_vercel [of "R @ suf"] by simp
    show ?thesis
    proof (cases "R = []")
      case True
      have jp: "join [cwd, R] = normalize ''.''"
        using \<open>cwd = []\<close> True
        by (simp add: join_def normalize_def normalizeString_def normSegs_def)
      have "stackOf ''.'' = foldl (normStep True) [] ([] @ splitSep R)"
        using True by (simp add: stackOf_def normSegs_def)
      then have "normalize ''.'' \<noteq> normalize ?q"
        using sq assms by (intro normalize_differ [where m = True and X = "[]"]) simp_all
      then show ?thesis unfolding jp jq .
    next
      case False
      have jp: "join [cwd, R] = normalize R"
        using \<open>cwd = []\<close> False by (simp add: join_def)
      show ?thesis
      proof (cases "hd R = CHR ''/''")
        case True
        then have "hd (normalize R) = CHR ''/''"
          using normalize_hd [OF False] by simp
        moreover have "hd (normalize ?q) \<noteq> CHR ''/''"
          using normalize_hd [of ?q] by simp
        ultimately show ?thesis unfolding jp jq by metis
      next
        case rel: False
        have "stackOf R = foldl (normStep True) [] ([] @ splitSep R)"
          using rel by (simp add: stackOf_def normSegs_def)
        then have "normalize R \<noteq> normalize ?q"
          using sq assms False
          by (intro normalize_differ [where m = True and X = "[]"]) simp_all
        then show ?thesis unfolding jp jq .
      qed
    qed
  next
    case False
    let ?q = "cwd @ ''/.vercel/'' @ R @ suf"
    let ?m = "hd cwd \<noteq> CHR ''/''"
    have jq: "join [cwd, ''.vercel'', R @ suf] = normalize ?q"
      using False suf by (simp add: join_def)
    have sq: "splitSep ?q = splitSep cwd @ ''.vercel'' # splitSep (R @ suf)"
      using splitSep_append_sep [of cwd "''.vercel/'' @ R @ suf"]
        splitSep_vercel [of "R @ suf"] by simp
    have hq: "(hd ?q \<noteq> CHR ''/'') = ?m" using False by (simp add: hd_append)
    show ?thesis
    proof (cases "R = []")
      case True
      have jp: "join [cwd, R] = normalize cwd"
        using False True by (simp add: join_def)
      have "stackOf cwd = foldl (normStep ?m) [] (splitSep cwd @ splitSep R)"
        using True by (simp add: stackOf_def normSegs_def)
      then have "normalize cwd \<noteq> normalize ?q"
        using False hq sq assms by (intro normalize_differ [where m = ?m]) simp_all
      then show ?thesis unfolding jp jq .
    next
      case nonempty: False
      let ?p = "cwd @ ''/'' @ R"
      have jp: "join [cwd, R] = normalize ?p"
        using False nonempty by (simp add: join_def)
      have "stackOf ?p = foldl (normStep ?m) [] (splitSep cwd @ splitSep R)"
        using False splitSep_append_sep [of cwd R]
        by (simp add: stackOf_def normSegs_def hd_append)
      then have "normalize ?p \<noteq> normalize ?q"
        using False hq sq assms by (intro normalize_differ [where m = ?m]) simp_all
      then show ?thesis unfolding jp jq .
    qed
  qed
qed

lemma suffixed_differ:
  assumes "suf1 \<noteq> suf2" "2 < length suf1" "2 < length suf2"
    and "CHR ''/'' \<notin> set suf1" "CHR ''/'' \<notin> set suf2"
  shows "join [cwd, ''.vercel'', R @ suf1] \<noteq> join [cwd, ''.vercel'', R @ suf2]"
proof
  assume eq: "join [cwd, ''.vercel'', R @ suf1] = join [cwd, ''.vercel'', R @ suf2]"
  define A where "A = (if cwd = [] then ''.vercel/'' else cwd @ ''/.vercel/'') @ R"
  let ?m = "hd A \<noteq> CHR ''/''"
  let ?B = "foldl (normStep ?m) [] (butlast (splitSep A))" and ?t = "last (splitSep A)"
  have A: "A \<noteq> []" by (simp add: A_def)
  have j: "join [cwd, ''.vercel'', R @ suf] = normalize (A @ suf)" if "suf \<noteq> []" for suf
    using that by (simp add: join_def A_def)
  have st: "stackOf (A @ suf) = (?t @ suf) # ?B"
    if "2 < length suf" "CHR ''/'' \<notin> set suf" for suf
  proof -
    have "?t @ suf \<noteq> []" "?t @ suf \<noteq> ''.''" "?t @ suf \<noteq> ''..''"
      using that(1) by (auto simp: append_eq_Cons_conv)
    then show ?thesis
      using A splitSep_append_plain [OF that(2), of A]
      by (simp add: stackOf_def normSegs_def hd_append)
  qed
  have ne: "suf1 \<noteq> []" "suf2 \<noteq> []" using assms(2,3) by auto
  have "normalize (A @ suf1) = normalize (A @ suf2)"
    using eq j [OF ne(1)] j [OF ne(2)] by simp
  then have "stackOf (A @ suf1) = stackOf (A @ suf2)"
    using A by (intro normalize_eq_stack) simp_all
  then show False
    using st [OF assms(2,4)] st [OF assms(3,5)] assms(1) by simp
qed


lemma joinSep_snoc: "st \<noteq> [] \<Longrightarrow> joinSep (st @ [x]) = joinSep st @ ''/'' @ x"
  by (induction st rule: joinSep.induct) auto

lemma normalize_child:
  assumes "normalize c = c" "c \<noteq> ''.''" "last c \<noteq> CHR ''/''"
    and "plainSeg s" "s \<noteq> ''..''"
  shows "normalize (c @ ''/'' @ s) = c @ ''/'' @ s"
proof -
  let ?m = "hd c \<noteq> CHR ''/''"
  have c: "c \<noteq> []" using assms(1) by (auto simp: normalize_def)
  have s: "s \<noteq> []" "s \<noteq> ''.''" "CHR ''/'' \<notin> set s"
    using assms(4) by (simp_all add: plainSeg_def)
  have ls: "last s \<noteq> CHR ''/''" using s(1,3) last_in_set by metis
  have nc: "normalizeString c ?m = joinSep (rev (stackOf c))"
    by (simp add: normalizeString_def stackOf_def)
  have ne: "stackOf c \<noteq> []"
  proof
    assume "stackOf c = []"
    then have "normalize c = ''/'' \<or> normalize c = ''.''"
      using c assms(3) nc by (simp add: normalize_def)
    then show False using assms(1,2,3) by auto
  qed
  have pl: "list_all plainSeg (rev (stackOf c))"
    using stackOf_plain [of c] by simp
  have jn: "joinSep (rev (stackOf c)) \<noteq> []"
    using joinSep_Nil_iff [OF pl] ne by simp
  have c_eq: "c = (if ?m then [] else ''/'') @ joinSep (rev (stackOf c))"
    using assms(1,3) c nc jn by (simp add: normalize_def Let_def split: if_splits)
  have "stackOf (c @ ''/'' @ s) = s # stackOf c"
    using c s assms(5) splitSep_append_sep [of c s]
    by (simp add: stackOf_def normSegs_def hd_append splitSep_no_sep)
  then have "normalizeString (c @ ''/'' @ s) ?m = joinSep (rev (stackOf c)) @ ''/'' @ s"
    using c ne joinSep_snoc [of "rev (stackOf c)" s]
    by (simp add: normalizeString_def stackOf_def hd_append)
  then have "normalize (c @ ''/'' @ s) =
      (if ?m then [] else ''/'') @ joinSep (rev (stackOf c)) @ ''/'' @ s"
    using c s(1) ls by (simp add: normalize_def Let_def hd_append)
  then show ?thesis using c_eq by (metis append.assoc)
qed

lemma normalize_child_last:
  assumes "plainSeg s"
  shows "c @ ''/'' @ s \<noteq> ''.'' \<and> last (c @ ''/'' @ s) \<noteq> CHR ''/''"
proof -
  have s: "s \<noteq> []" "CHR ''/'' \<notin> set s" using assms by (simp_all add: plainSeg_def)
  then have "last s \<noteq> CHR ''/''" using last_in_set by metis
  then show ?thesis using s(1) by (auto simp: append_eq_Cons_conv)
qed

lemma join_vercel_literal:
  assumes "normalize cwd = cwd" "cwd \<noteq> ''.''" "last cwd \<noteq> CHR ''/''"
    and "CHR ''/'' \<notin> set root" "2 < length suf" "CHR ''/'' \<notin> set suf"
  shows "join [cwd, ''.vercel'', root @ suf] = cwd @ ''/.vercel/'' @ root @ suf"
proof -
  have c: "cwd \<noteq> []" using assms(1) by (auto simp: normalize_def)
  have v: "plainSeg ''.vercel''" "''.vercel'' \<noteq> ''..''" by (simp_all add: plainSeg_def)
  have r: "plainSeg (root @ suf)" "root @ suf \<noteq> ''..''"
    using assms(4,5,6) by (auto simp: plainSeg_def append_eq_Cons_conv)
  have n1: "normalize (cwd @ ''/'' @ ''.vercel'') = cwd @ ''/'' @ ''.vercel''"
    using assms(1,2,3) v by (rule normalize_child)
  have l: "cwd @ ''/'' @ ''.vercel'' \<noteq> ''.''" "last (cwd @ ''/'' @ ''.vercel'') \<noteq> CHR ''/''"
    using normalize_child_last [OF v(1), of cwd] by blast+
  have "normalize ((cwd @ ''/'' @ ''.vercel'') @ ''/'' @ (root @ suf)) =
          (cwd @ ''/'' @ ''.vercel'') @ ''/'' @ (root @ suf)"
    by (rule normalize_child [OF n1 l r])
  then show ?thesis using c r(1) by (simp add: join_def plainSeg_def)
qed

lemma join_legacy_literal:
  assumes "normalize cwd = cwd" "cwd \<noteq> ''.''" "last cwd \<noteq> CHR ''/''"
    and "plainSeg root" "root \<noteq> ''..''"
  shows "join [cwd, root] = cwd @ ''/'' @ root"
proof -
  have c: "cwd \<noteq> []" using assms(1) by (auto simp: normalize_def)
  show ?thesis
    using normalize_child [OF assms] c assms(4) by (simp add: join_def plainSeg_def)
qed

lemma destinations_append: "destinations (xs @ ys) = destinations xs @ destinations ys"
  by (induction xs rule: destinations.induct) simp_all

lemma destinations_pullAllEnvFiles:
  "destinations (events (pullAllEnvFiles k envFileRoot client project a cwd tr)) =
     destinations tr @
     [join [cwd, envFileRoot],
      join [cwd, ''.vercel'', envFileRoot @ ''.development.local''],
      join [cwd, ''.vercel'', envFileRoot @ ''.preview.local''],
      join [cwd, ''.vercel'', envFileRoot @ ''.production.local'']]"
  by (simp add: pullAllEnvFiles_unfold destinations_append)

lemma normalize_proj: "normalize ''/proj'' = ''/proj''"
  by (simp add: normalize_def normalizeString_def normSegs_def)

text \<open>
  C6. Whatever the root and the working directory, \<open>pullAllEnvFiles\<close> starts exactly
  four downloads: Development to \<open>join(cwd, root)\<close>, then Development, Preview and
  Production to \<open>join(cwd, '.vercel', root + suffix)\<close> with the suffixes
  \<open>.development.local\<close>, \<open>.preview.local\<close> and \<open>.production.local\<close>. For a working
  directory in normal form (as \<open>process.cwd()\<close> is) and a root that is a plain file name,
  these are literally \<open>cwd/root\<close> and \<open>cwd/.vercel/root.suffix\<close>. (With the working
  directory given as \<open>.\<close>, \<open>join\<close> writes \<open>./custom\<close> as \<open>custom\<close>.)
\<close>

theorem fanout_four_tasks:
  "events (pullAllEnvFiles k envFileRoot client project a cwd tr) =
     tr @
     [Ev_envPull client Development [join [cwd, envFileRoot]],
      Ev_envPull client Development
        [join [cwd, ''.vercel'', envFileRoot @ ''.development.local'']],
      Ev_envPull client Preview
        [join [cwd, ''.vercel'', envFileRoot @ ''.preview.local'']],
      Ev_envPull client Production
        [join [cwd, ''.vercel'', envFileRoot @ ''.production.local'']]] \<and>
   (normalize cwd = cwd \<and> cwd \<noteq> ''.'' \<and> last cwd \<noteq> CHR ''/'' \<and>
    plainSeg envFileRoot \<and> envFileRoot \<noteq> ''..'' \<longrightarrow>
      destinations (events (pullAllEnvFiles k envFileRoot client project a cwd [])) =
        [cwd @ ''/'' @ envFileRoot,
         cwd @ ''/.vercel/'' @ envFileRoot @ ''.development.local'',
         cwd @ ''/.vercel/'' @ envFileRoot @ ''.preview.local'',
         cwd @ ''/.vercel/'' @ envFileRoot @ ''.production.local''])"
proof -
  have "destinations (events (pullAllEnvFiles k envFileRoot client project a cwd [])) =
        [cwd @ ''/'' @ envFileRoot,
         cwd @ ''/.vercel/'' @ envFileRoot @ ''.development.local'',
         cwd @ ''/.vercel/'' @ envFileRoot @ ''.preview.local'',
         cwd @ ''/.vercel/'' @ envFileRoot @ ''.production.local'']"
    if n: "normalize cwd = cwd" "cwd \<noteq> ''.''" "last cwd \<noteq> CHR ''/''"
      and r: "plainSeg envFileRoot" "envFileRoot \<noteq> ''..''"
  proof -
    have s: "CHR ''/'' \<notin> set envFileRoot" using r(1) by (simp add: plainSeg_def)
    have "join [cwd, envFileRoot] = cwd @ ''/'' @ envFileRoot"
      using n r by (rule join_legacy_literal)
    moreover have "join [cwd, ''.vercel'', envFileRoot @ ''.development.local''] =
        cwd @ ''/.vercel/'' @ envFileRoot @ ''.development.local''"
      using n s by (rule join_vercel_literal) simp_all
    moreover have "join [cwd, ''.vercel'', envFileRoot @ ''.preview.local''] =
        cwd @ ''/.vercel/'' @ envFileRoot @ ''.preview.local''"
      using n s by (rule join_vercel_literal) simp_all
    moreover have "join [cwd, ''.vercel'', envFileRoot @ ''.production.local''] =
        cwd @ ''/.vercel/'' @ envFileRoot @ ''.production.local''"
      using n s by (rule join_vercel_literal) simp_all
    ultimately show ?thesis by (simp only: destinations_pullAllEnvFiles destinations.simps append_Nil)
  qed
  then show ?thesis by (simp add: pullAllEnvFiles_unfold)
qed

theorem fanout_four_tasks_witness:
  "destinations (events (pullAllEnvFiles
       (scenario (Inr plainArgv) (Linked teamOrg projectP1) NotLinked allOk)
       ''custom'' client0 projectP1 plainArgv ''/proj'' [])) =
     [''/proj/custom'',
      ''/proj/.vercel/custom.development.local'',
      ''/proj/.vercel/custom.preview.local'',
      ''/proj/.vercel/custom.production.local''] \<and>
   destinations (events (pullAllEnvFiles
       (scenario (Inr plainArgv) (Linked teamOrg projectP1) NotLinked allOk)
       ''custom'' client0 projectP1 plainArgv ''.'' [])) =
     [''custom'',
      ''.vercel/custom.development.local'',
      ''.vercel/custom.preview.local'',
      ''.vercel/custom.production.local'']"
proof -
  have h: "normalize ''/proj'' = ''/proj'' \<and> ''/proj'' \<noteq> ''.'' \<and>
      last ''/proj'' \<noteq> CHR ''/'' \<and> plainSeg ''custom'' \<and> ''custom'' \<noteq> ''..''"
    by (simp add: normalize_proj plainSeg_def)
  note absolute = fanout_four_tasks
      [of "scenario (Inr plainArgv) (Linked teamOrg projectP1) NotLinked allOk"
          "''custom''" client0 projectP1 plainArgv "''/proj''" "[]",
        THEN conjunct2, THEN mp, OF h]
  have relative: "destinations (events (pullAllEnvFiles
       (scenario (Inr plainArgv) (Linked teamOrg projectP1) NotLinked allOk)
       ''custom'' client0 projectP1 plainArgv ''.'' [])) =
     [''custom'',
      ''.vercel/custom.development.local'',
      ''.vercel/custom.preview.local'',
      ''.vercel/custom.production.local'']"
    by (simp add: destinations_pullAllEnvFiles join_def normalize_def normalizeString_def
        normSegs_def)
  show ?thesis
    using absolute relative by simp
qed

text \<open>
  C8. Whatever the root and the working directory, the four destination paths of
  \<open>pullAllEnvFiles\<close> are pairwise distinct.
\<close>

theorem destinations_distinct:
  "distinct (destinations (events (pullAllEnvFiles k envFileRoot client project a cwd [])))"
proof -
  let ?dev = "''.development.local''" and ?pre = "''.preview.local''"
    and ?prod = "''.production.local''"
  have "join [cwd, envFileRoot] \<noteq> join [cwd, ''.vercel'', envFileRoot @ ?dev]"
    by (rule legacy_differs) simp_all
  moreover have "join [cwd, envFileRoot] \<noteq> join [cwd, ''.vercel'', envFileRoot @ ?pre]"
    by (rule legacy_differs) simp_all
  moreover have "join [cwd, envFileRoot] \<noteq> join [cwd, ''.vercel'', envFileRoot @ ?prod]"
    by (rule legacy_differs) simp_all
  moreover have "join [cwd, ''.vercel'', envFileRoot @ ?dev] \<noteq>
      join [cwd, ''.vercel'', envFileRoot @ ?pre]"
    by (rule suffixed_differ) simp_all
  moreover have "join [cwd, ''.vercel'', envFileRoot @ ?dev] \<noteq>
      join [cwd, ''.vercel'', envFileRoot @ ?prod]"
    by (rule suffixed_differ) simp_all
  moreover have "join [cwd, ''.vercel'', envFileRoot @ ?pre] \<noteq>
      join [cwd, ''.vercel'', envFileRoot @ ?prod]"
    by (rule suffixed_differ) simp_all
  ultimately show ?thesis
    by (simp only: destinations_pullAllEnvFiles destinations.simps append_Nil
        distinct.simps set_simps insert_iff empty_iff simp_thms de_Morgan_disj)
qed

theorem destinations_distinct_witness:
  "distinct (destinations (events (pullAllEnvFiles
       (scenario (Inr plainArgv) (Linked teamOrg projectP1) NotLinked allOk)
       ''../x/.'' client0 projectP1 plainArgv ''/proj/'' []))) \<and>
   destinations (events (pullAllEnvFiles
       (scenario (Inr plainArgv) (Linked teamOrg projectP1) NotLinked allOk)
       ''../x/.'' client0 projectP1 plainArgv ''/proj/'' [])) =
     [''/x'', ''/proj/x/..development.local'',
      ''/proj/x/..preview.local'', ''/proj/x/..production.local'']"
  using destinations_distinct
    [of "scenario (Inr plainArgv) (Linked teamOrg projectP1) NotLinked allOk"
        "''../x/.''" client0 projectP1 plainArgv "''/proj/''"]
  by (simp add: destinations_pullAllEnvFiles join_def normalize_def normalizeString_def
      normSegs_def)

text \<open>
  C10. The default root \<open>.env\<close> is taken only when \<open>--env\<close> is absent: whatever
  string \<open>--env\<close> is given, that string is the root and the four destinations are
  built from it. With \<open>--env\<close> given as the empty string the root is the empty string:
  the legacy destination is \<open>join(cwd, '')\<close>, the working directory itself, and the
  other three files are \<open>.development.local\<close>, \<open>.preview.local\<close> and
  \<open>.production.local\<close> in \<open>.vercel\<close>.
\<close>

theorem empty_env_is_not_defaulted:
  assumes "parseArgs k client [] = (Inr a, tr)"
    and "ensureLink k client (main_cwd k a) (main_yes a) tr = (Inr (org, project), tr1)"
    and "cwd = main_cwd k a"
  shows "(arg_env a = None \<longrightarrow> main_env a = ''.env'' \<and>
            destinations (events (main k client)) =
              [join [cwd, ''.env''],
               join [cwd, ''.vercel'', ''.env.development.local''],
               join [cwd, ''.vercel'', ''.env.preview.local''],
               join [cwd, ''.vercel'', ''.env.production.local'']]) \<and>
         (arg_env a = Some [] \<longrightarrow> main_env a = [] \<and>
            destinations (events (main k client)) =
              [join [cwd],
               join [cwd, ''.vercel'', ''.development.local''],
               join [cwd, ''.vercel'', ''.preview.local''],
               join [cwd, ''.vercel'', ''.production.local'']] \<and>
            (normalize cwd = cwd \<and> cwd \<noteq> ''.'' \<and> last cwd \<noteq> CHR ''/'' \<longrightarrow>
               destinations (events (main k client)) =
                 [cwd,
                  cwd @ ''/.vercel/.development.local'',
                  cwd @ ''/.vercel/.preview.local'',
                  cwd @ ''/.vercel/.production.local''])) \<and>
         (\<forall>e. arg_env a = Some e \<longrightarrow> main_env a = e \<and>
            destinations (events (main k client)) =
              [join [cwd, e],
               join [cwd, ''.vercel'', e @ ''.development.local''],
               join [cwd, ''.vercel'', e @ ''.preview.local''],
               join [cwd, ''.vercel'', e @ ''.production.local'']])"
proof -
  have tr: "tr = []" using assms(1) parseArgs_Inr by blast
  have tr1: "destinations tr1 = []"
    using ensureLink_events [of k client "main_cwd k a" "main_yes a" tr] assms(2) tr
    by (auto split: if_splits)
  have d: "destinations (events (main k client)) =
      [join [cwd, main_env a],
       join [cwd, ''.vercel'', main_env a @ ''.development.local''],
       join [cwd, ''.vercel'', main_env a @ ''.preview.local''],
       join [cwd, ''.vercel'', main_env a @ ''.production.local'']]"
    using tr1 assms(3)
    by (simp add: main_linked [OF assms(1,2)] destinations_pullAllEnvFiles
        destinations_append Let_def)
  have e: "join [cwd, []] = join [cwd]" by (simp add: join_def)
  have lit: "join [cwd] = cwd \<and>
      join [cwd, ''.vercel'', ''.development.local''] = cwd @ ''/.vercel/.development.local'' \<and>
      join [cwd, ''.vercel'', ''.preview.local''] = cwd @ ''/.vercel/.preview.local'' \<and>
      join [cwd, ''.vercel'', ''.production.local''] = cwd @ ''/.vercel/.production.local''"
    if n: "normalize cwd = cwd" "cwd \<noteq> ''.''" "last cwd \<noteq> CHR ''/''"
  proof -
    have c: "cwd \<noteq> []" using n(1) by (auto simp: normalize_def)
    have "join [cwd] = cwd" using c n(1) by (simp add: join_def)
    moreover have "join [cwd, ''.vercel'', [] @ ''.development.local''] =
        cwd @ ''/.vercel/'' @ [] @ ''.development.local''"
      using n by (rule join_vercel_literal) simp_all
    moreover have "join [cwd, ''.vercel'', [] @ ''.preview.local''] =
        cwd @ ''/.vercel/'' @ [] @ ''.preview.local''"
      using n by (rule join_vercel_literal) simp_all
    moreover have "join [cwd, ''.vercel'', [] @ ''.production.local''] =
        cwd @ ''/.vercel/'' @ [] @ ''.production.local''"
      using n by (rule join_vercel_literal) simp_all
    ultimately show ?thesis by simp
  qed
  show ?thesis
    using d e lit by (auto simp: main_env_def)
qed

theorem empty_env_is_not_defaulted_witness:
  "destinations (events (main
       (scenario (Inr (plainArgv\<lparr>arg_env := Some []\<rparr>)) (Linked teamOrg projectP1) NotLinked allOk)
       client0)) =
     [''/proj'', ''/proj/.vercel/.development.local'',
      ''/proj/.vercel/.preview.local'', ''/proj/.vercel/.production.local''] \<and>
   destinations (events (main
       (scenario (Inr plainArgv) (Linked teamOrg projectP1) NotLinked allOk) client0)) =
     [''/proj/.env'', ''/proj/.vercel/.env.development.local'',
      ''/proj/.vercel/.env.preview.local'', ''/proj/.vercel/.env.production.local''] \<and>
   main_env (plainArgv\<lparr>arg_env := Some ''custom''\<rparr>) = ''custom'' \<and>
   destinations (events (main
       (scenario (Inr (plainArgv\<lparr>arg_env := Some ''custom''\<rparr>)) (Linked teamOrg projectP1)
          NotLinked allOk)
       client0)) =
     [''/proj/custom'', ''/proj/.vercel/custom.development.local'',
      ''/proj/.vercel/custom.preview.local'', ''/proj/.vercel/custom.production.local'']"
proof -
  let ?b = "plainArgv\<lparr>arg_env := Some ''custom''\<rparr>"
  let ?kb = "scenario (Inr ?b) (Linked teamOrg projectP1) NotLinked allOk"
  have pb: "parseArgs ?kb client0 [] = (Inr ?b, [])"
    by (simp add: parseArgs_def processArgs_def scenario_def plainArgv_def)
  have lb: "ensureLink ?kb client0 (main_cwd ?kb ?b) (main_yes ?b) [] =
             (Inr (teamOrg, projectP1), [Ev_getLinkedProject ''/proj''])"
    by (simp add: ensureLink_def scenario_def main_cwd_def plainArgv_def)
  have cb: "''/proj'' = main_cwd ?kb ?b"
    by (simp add: scenario_def main_cwd_def plainArgv_def)
  have eb: "arg_env ?b = Some ''custom''"
    by (simp add: plainArgv_def)
  have jb: "join [''/proj'', ''custom''] = ''/proj/custom''"
      "join [''/proj'', ''.vercel'', ''custom'' @ ''.development.local''] =
         ''/proj/.vercel/custom.development.local''"
      "join [''/proj'', ''.vercel'', ''custom'' @ ''.preview.local''] =
         ''/proj/.vercel/custom.preview.local''"
      "join [''/proj'', ''.vercel'', ''custom'' @ ''.production.local''] =
         ''/proj/.vercel/custom.production.local''"
    by (simp_all add: join_def normalize_def normalizeString_def normSegs_def)
  note supplied = empty_env_is_not_defaulted
    [OF pb lb cb, THEN conjunct2, THEN conjunct2, THEN spec, THEN mp, OF eb, unfolded jb]
  let ?a = "plainArgv\<lparr>arg_env := Some []\<rparr>"
  let ?k = "scenario (Inr ?a) (Linked teamOrg projectP1) NotLinked allOk"
  let ?k' = "scenario (Inr plainArgv) (Linked teamOrg projectP1) NotLinked allOk"
  have p: "parseArgs ?k client0 [] = (Inr ?a, [])"
    by (simp add: parseArgs_def processArgs_def scenario_def plainArgv_def)
  have p': "parseArgs ?k' client0 [] = (Inr plainArgv, [])"
    by (simp add: parseArgs_def processArgs_def scenario_def plainArgv_def)
  have l: "ensureLink ?k client0 (main_cwd ?k ?a) (main_yes ?a) [] =
             (Inr (teamOrg, projectP1), [Ev_getLinkedProject ''/proj''])"
    by (simp add: ensureLink_def scenario_def main_cwd_def plainArgv_def)
  have l': "ensureLink ?k' client0 (main_cwd ?k' plainArgv) (main_yes plainArgv) [] =
             (Inr (teamOrg, projectP1), [Ev_getLinkedProject ''/proj''])"
    by (simp add: ensureLink_def scenario_def main_cwd_def plainArgv_def)
  have c: "''/proj'' = main_cwd ?k ?a" "''/proj'' = main_cwd ?k' plainArgv"
    by (simp_all add: scenario_def main_cwd_def plainArgv_def)
  have e: "arg_env ?a = Some []" "arg_env plainArgv = None"
    by (simp_all add: plainArgv_def)
  have j: "join [''/proj'', ''.env''] = ''/proj/.env''"
      "join [''/proj'', ''.vercel'', ''.env.development.local''] =
         ''/proj/.vercel/.env.development.local''"
      "join [''/proj'', ''.vercel'', ''.env.preview.local''] =
         ''/proj/.vercel/.env.preview.local''"
      "join [''/proj'', ''.vercel'', ''.env.production.local''] =
         ''/proj/.vercel/.env.production.local''"
    by (simp_all add: join_def normalize_def normalizeString_def normSegs_def)
  have h: "normalize ''/proj'' = ''/proj'' \<and> ''/proj'' \<noteq> ''.'' \<and>
      last ''/proj'' \<noteq> CHR ''/''"
    by (simp add: normalize_proj)
  note given = empty_env_is_not_defaulted
    [OF p l c(1), THEN conjunct2, THEN conjunct1, THEN mp, OF e(1), THEN conjunct2,
     THEN conjunct2, THEN mp, OF h]
  note absent = empty_env_is_not_defaulted
    [OF p' l' c(2), THEN conjunct1, THEN mp, OF e(2), THEN conjunct2, unfolded j]
  show ?thesis
    using given absent supplied by simp
qed

end
